theory Spec2Isabelle
  imports Main
begin

section \<open>JavaScript values\<close>

text \<open>
  The payloads the gateway and the REST transport deliver are JavaScript objects. A value
  is one of the primitives, an array or an object; an object is a finite map from property
  names to values. Reading a property that an object does not have gives \<open>undefined\<close>,
  while the \<open>in\<close> operator tells a missing property from one that holds \<open>undefined\<close>
  or \<open>null\<close>. Numbers only matter here through \<open>typeof\<close> and truthiness, so they are
  integers, with \<open>NaN\<close> apart.
\<close>

datatype jsval =
    JUndefined
  | JNull
  | JBool bool
  | JNum int
  | JNaN
  | JStr string
  | JArr "jsval list"
  | JObj "string \<Rightarrow> jsval option"

type_synonym obj = "string \<Rightarrow> jsval option"

datatype jstype = TUndefined | TObject | TBoolean | TNumber | TString

text \<open>\<open>typeof v\<close>; \<open>typeof null\<close> is \<open>'object'\<close>.\<close>

fun typeof :: "jsval \<Rightarrow> jstype" where
  "typeof JUndefined = TUndefined"
| "typeof JNull = TObject"
| "typeof (JBool b) = TBoolean"
| "typeof (JNum n) = TNumber"
| "typeof JNaN = TNumber"
| "typeof (JStr s) = TString"
| "typeof (JArr xs) = TObject"
| "typeof (JObj m) = TObject"

text \<open>The truthiness that \<open>if (v)\<close> and \<open>v ? a : b\<close> test.\<close>

fun truthy :: "jsval \<Rightarrow> bool" where
  "truthy JUndefined = False"
| "truthy JNull = False"
| "truthy (JBool b) = b"
| "truthy (JNum n) = (n \<noteq> 0)"
| "truthy JNaN = False"
| "truthy (JStr s) = (s \<noteq> [])"
| "truthy (JArr xs) = True"
| "truthy (JObj m) = True"

text \<open>\<open>'k' in data\<close> and \<open>data.k\<close> for an object \<open>data\<close>.\<close>

definition has :: "obj \<Rightarrow> string \<Rightarrow> bool" where
  "has data k = (data k \<noteq> None)"

definition get :: "obj \<Rightarrow> string \<Rightarrow> jsval" where
  "get data k = (case data k of None \<Rightarrow> JUndefined | Some v \<Rightarrow> v)"

section \<open>ClientUser and its patch\<close>

text \<open>
  \<open>ClientUser\<close> extends \<open>User\<close>, whose source is not part of this slice. The fields that
  \<open>User\<close> owns are the opaque component \<open>base\<close>, and \<open>super._patch\<close> is the parameter
  \<open>User_patch\<close>, acting on that component. The fields \<open>ClientUser\<close> declares are
  JavaScript values; a field that was never assigned reads \<open>undefined\<close>.
\<close>

record ('u, 's) client_user =
  base :: 'u
  typing :: "string \<Rightarrow> jsval option"
  settings :: "'s option"
  verified :: jsval
  mfaEnabled :: jsval
  email :: jsval
  premium :: jsval

text \<open>
  \<open>_patch(data)\<close> mutates the user and may assign \<open>this.client.token\<close>. The model takes
  the user and the current token and returns both.
\<close>

definition ClientUser_patch ::
  "('u \<Rightarrow> obj \<Rightarrow> 'u) \<Rightarrow> obj \<Rightarrow> ('u, 's) client_user \<times> jsval \<Rightarrow> ('u, 's) client_user \<times> jsval"
where
  "ClientUser_patch User_patch data st =
    (let (this, token) = st;
         this = this\<lparr>base := User_patch (base this) data\<rparr>;
         this = (if has data ''verified''
                 then this\<lparr>verified := get data ''verified''\<rparr>
                 else this);
         this = (if has data ''mfa_enabled''
                 then this\<lparr>mfaEnabled :=
                        (if typeof (get data ''mfa_enabled'') = TBoolean
                         then get data ''mfa_enabled'' else JNull)\<rparr>
                 else if typeof (mfaEnabled this) = TUndefined
                 then this\<lparr>mfaEnabled := JNull\<rparr>
                 else this);
         this = (if has data ''email''
                 then this\<lparr>email :=
                        (if typeof (get data ''email'') = TString
                         then get data ''email'' else JNull)\<rparr>
                 else this);
         this = (if has data ''premium''
                 then this\<lparr>premium :=
                        (if typeof (get data ''premium'') = TBoolean
                         then get data ''premium'' else JNull)\<rparr>
                 else this);
         token = (if truthy (get data ''token'') then get data ''token'' else token)
     in (this, token))"

text \<open>
  The overlay of two payloads, as \<open>Object.assign({}, P1, P2)\<close> builds it: a property of
  \<open>P2\<close> wins over the same property of \<open>P1\<close>. The source has no such function; this is the
  \<open>combine\<close> of the patch composition law.
\<close>

definition combine :: "obj \<Rightarrow> obj \<Rightarrow> obj" where
  "combine P1 P2 = (\<lambda>k. case P2 k of None \<Rightarrow> P1 k | Some v \<Rightarrow> Some v)"

section \<open>Property access, errors and iteration\<close>

text \<open>
  An uncaught exception is a value. \<open>Error msg\<close> is \<open>new Error(msg)\<close>; \<open>TypeError\<close> is what
  the engine throws on a property access on \<open>null\<close> or \<open>undefined\<close>, on iterating a value
  that is not iterable, and (the files are in strict mode) on assigning a property of a
  primitive. \<open>OutOfModel\<close> marks the one operation these values cannot express: a named
  property assigned on an array.
\<close>

datatype js_error = TypeError | Error string | OutOfModel

text \<open>\<open>v.k\<close> for any value \<open>v\<close>; strings, numbers, booleans and arrays have no such own property.\<close>

fun property :: "jsval \<Rightarrow> string \<Rightarrow> js_error + jsval" where
  "property JUndefined k = Inl TypeError"
| "property JNull k = Inl TypeError"
| "property (JObj m) k = Inr (get m k)"
| "property v k = Inr JUndefined"



text \<open>
  \<open>a === b\<close> for two values that come from two different payloads: primitives compare by
  type and value, \<open>NaN\<close> equals nothing, and two objects or arrays parsed from different
  payloads are never the same reference.
\<close>

fun strict_eq :: "jsval \<Rightarrow> jsval \<Rightarrow> bool" where
  "strict_eq JUndefined JUndefined = True"
| "strict_eq JNull JNull = True"
| "strict_eq (JBool a) (JBool b) = (a = b)"
| "strict_eq (JNum a) (JNum b) = (a = b)"
| "strict_eq (JStr a) (JStr b) = (a = b)"
| "strict_eq a b = False"

section \<open>The client\<close>

text \<open>
  The names of \<open>Constants.Events\<close> that the slice uses; their string values are not part
  of it.
\<close>

datatype event = GUILD_CREATE | USER_SETTINGS_UPDATE

text \<open>
  Calls the READY handler makes on collaborators whose source is not part of the slice
  (\<open>client.guilds.add\<close>, \<open>client.channels.add\<close>, \<open>shard.checkReady\<close>), in the order made.
\<close>

datatype call = GuildsAdd jsval | ChannelsAdd jsval | CheckReady

text \<open>
  \<open>client.users.cache\<close> holds references: \<open>Self\<close> is the object \<open>client.user\<close> also points
  to, so a patch of \<open>client.user\<close> is seen through the cache as well.
\<close>

datatype 'o cached = Self | Other 'o

record ('u, 's, 'o) client =
  token :: jsval
  user :: "('u, 's) client_user option"
  users_cache :: "jsval \<Rightarrow> 'o cached option"
  calls :: "call list"
  emitted :: "(event \<times> jsval) list"

text \<open>
  The code of \<open>User\<close> and \<open>ClientUserSettings\<close> that \<open>ClientUser\<close> and the READY handler
  run: \<open>super._patch\<close>, the base constructor \<open>super(client, data.user)\<close> (which returns the
  object under construction and may touch the token as any patch can), the \<open>id\<close> getter,
  and \<open>new ClientUserSettings(this, data.user_settings)\<close>.
\<close>

record ('u, 's) externals =
  User_patch :: "'u \<Rightarrow> obj \<Rightarrow> 'u"
  User_ctor :: "jsval \<Rightarrow> jsval \<Rightarrow> ('u, 's) client_user \<times> jsval"
  User_id :: "'u \<Rightarrow> jsval"
  ClientUserSettings_ctor :: "('u, 's) client_user \<Rightarrow> jsval \<Rightarrow> 's"


section \<open>The READY handler\<close>




section \<open>The settings-update action\<close>

text \<open>
  \<open>UserSettingsUpdateAction.handle(settings)\<close>: \<open>client.emit\<close> is recorded in \<open>emitted\<close>,
  and the result is the object \<open>{ settings }\<close>.
\<close>

definition UserSettingsUpdate_handle ::
  "jsval \<Rightarrow> ('u, 's, 'o) client \<Rightarrow> obj \<times> ('u, 's, 'o) client"
where
  "UserSettingsUpdate_handle settings' client =
    ((\<lambda>k. None)(''settings'' \<mapsto> settings'),
     client\<lparr>emitted := emitted client @ [(USER_SETTINGS_UPDATE, settings')]\<rparr>)"

text \<open>The handler invoked once per dispatched payload, in dispatch order.\<close>

fun handle_all ::
  "jsval list \<Rightarrow> ('u, 's, 'o) client \<Rightarrow> obj list \<times> ('u, 's, 'o) client"
where
  "handle_all [] client = ([], client)"
| "handle_all (p # ps) client =
    (let (r, client) = UserSettingsUpdate_handle p client;
         (rs, client) = handle_all ps client
     in (r # rs, client))"

section \<open>ClientUser.edit\<close>

text \<open>
  \<open>edit(data)\<close> sends the request and continues in \<open>.then(newData => ...)\<close>. The response
  is \<open>Inr newData\<close>, or \<open>Inl e\<close> when the request fails and the callback never runs.
  \<open>UserUpdate_handle\<close> is \<open>client.actions.UserUpdate.handle\<close>, not part of the slice: it
  returns \<open>updated\<close> (\<open>None\<close> for \<open>null\<close>) and the user and token as it leaves them. The
  result is the settlement of the promise, with the user and token afterwards.
\<close>

definition edit ::
  "(jsval \<Rightarrow> ('u, 's) client_user \<times> jsval \<Rightarrow>
      ('u, 's) client_user option \<times> ('u, 's) client_user \<times> jsval) \<Rightarrow>
   js_error + jsval \<Rightarrow> ('u, 's) client_user \<times> jsval \<Rightarrow>
   (js_error + ('u, 's) client_user) \<times> ('u, 's) client_user \<times> jsval"
where
  "edit UserUpdate_handle response st =
    (case response of
       Inl e \<Rightarrow> (Inl e, st)
     | Inr newData \<Rightarrow>
         (case property newData ''token'' of
            Inl e \<Rightarrow> (Inl e, st)
          | Inr tok \<Rightarrow>
              (let (updated, this, tok) = UserUpdate_handle newData (fst st, tok)
               in (case updated of
                     Some u \<Rightarrow> (Inr u, this, tok)
                   | None \<Rightarrow> (Inr this, this, tok)))))"

section \<open>ClientUser.acceptInvite\<close>

text \<open>
  One invocation of \<open>acceptInvite\<close> is a small reactive system: it issues the request, and
  what happens next is decided by what the event loop delivers. The state holds the promise
  the call returned, the client's \<open>GUILD_CREATE\<close> listeners, the timeout set through
  \<open>client.setTimeout\<close>, a clock in milliseconds, and the calls made so far.
  \<open>client.on\<close>, \<open>client.removeListener\<close> and \<open>client.setTimeout\<close> are Node's
  \<open>EventEmitter\<close> and timers: \<open>on\<close> appends a listener, \<open>removeListener\<close> removes the most
  recently added instance of it and does nothing when there is none, and a timeout fires
  once when its delay has passed. Settling a promise that is already settled does nothing.
\<close>

datatype promise = Pending | Fulfilled jsval | Rejected js_error

text \<open>\<open>Handler\<close> is the closure \<open>handler\<close> of this invocation; \<open>Foreign n\<close> is any other listener.\<close>

datatype listener = Handler | Foreign nat

datatype invite_call =
    PostInvite jsval
  | On
  | RemoveListener
  | SetTimeout nat
  | Resolve jsval
  | Reject js_error

record invite_state =
  promise :: promise
  awaiting :: bool
  res :: jsval
  listeners :: "listener list"
  timer :: "nat option"
  now :: nat
  invite_calls :: "invite_call list"

text \<open>What the event loop delivers: time passing, the settlement of the request, an emitted guild.\<close>

datatype stimulus =
    Elapse nat
  | RequestFulfilled jsval
  | RequestRejected js_error
  | GuildCreate jsval

definition resolve :: "jsval \<Rightarrow> invite_state \<Rightarrow> invite_state" where
  "resolve v s =
    s\<lparr>promise := (if promise s = Pending then Fulfilled v else promise s),
      invite_calls := invite_calls s @ [Resolve v]\<rparr>"

definition reject :: "js_error \<Rightarrow> invite_state \<Rightarrow> invite_state" where
  "reject e s =
    s\<lparr>promise := (if promise s = Pending then Rejected e else promise s),
      invite_calls := invite_calls s @ [Reject e]\<rparr>"

definition removeListener :: "invite_state \<Rightarrow> invite_state" where
  "removeListener s =
    s\<lparr>listeners := rev (remove1 Handler (rev (listeners s))),
      invite_calls := invite_calls s @ [RemoveListener]\<rparr>"

definition on :: "invite_state \<Rightarrow> invite_state" where
  "on s = s\<lparr>listeners := listeners s @ [Handler], invite_calls := invite_calls s @ [On]\<rparr>"

definition setTimeout :: "nat \<Rightarrow> invite_state \<Rightarrow> invite_state" where
  "setTimeout delay s =
    s\<lparr>timer := Some (now s + delay), invite_calls := invite_calls s @ [SetTimeout delay]\<rparr>"

text \<open>\<open>guild.id === res.id\<close>; either property access may throw.\<close>

definition matches :: "jsval \<Rightarrow> jsval \<Rightarrow> js_error + bool" where
  "matches guild r =
    (case property guild ''id'' of
       Inl e \<Rightarrow> Inl e
     | Inr gid \<Rightarrow>
         (case property r ''id'' of
            Inl e \<Rightarrow> Inl e
          | Inr rid \<Rightarrow> Inr (strict_eq gid rid)))"

text \<open>
  The listener \<open>handler\<close>. An exception it throws leaves through \<open>emit\<close> to the emitter's
  caller, with nothing changed here.
\<close>

definition handler :: "jsval \<Rightarrow> invite_state \<Rightarrow> invite_state" where
  "handler guild s =
    (case matches guild (res s) of
       Inl e \<Rightarrow> s
     | Inr True \<Rightarrow> removeListener (resolve guild s)
     | Inr False \<Rightarrow> s)"

text \<open>The callback given to \<open>client.setTimeout\<close>.\<close>

definition timeout_callback :: "invite_state \<Rightarrow> invite_state" where
  "timeout_callback s = reject (Error ''Accepting invite timed out'') (removeListener s)"

text \<open>The callback of \<open>.then(res => ...)\<close>.\<close>

definition then_callback :: "jsval \<Rightarrow> invite_state \<Rightarrow> invite_state" where
  "then_callback r s = setTimeout 120000 (on (s\<lparr>res := r\<rparr>))"

text \<open>The callback of \<open>.catch(() => ...)\<close>: it takes no argument.\<close>

definition catch_callback :: "invite_state \<Rightarrow> invite_state" where
  "catch_callback s = reject (Error ''Invite code is not valid'') s"

text \<open>
  One delivery. Time passing fires the timeout once it is due; the request settles once;
  an emitted guild reaches \<open>handler\<close> while it is registered.
\<close>

fun step :: "stimulus \<Rightarrow> invite_state \<Rightarrow> invite_state" where
  "step (Elapse d) s =
    (let s = s\<lparr>now := now s + d\<rparr>
     in case timer s of
          None \<Rightarrow> s
        | Some due \<Rightarrow> if due \<le> now s then timeout_callback (s\<lparr>timer := None\<rparr>) else s)"
| "step (RequestFulfilled r) s =
    (if awaiting s then then_callback r (s\<lparr>awaiting := False\<rparr>) else s)"
| "step (RequestRejected e) s =
    (if awaiting s then catch_callback (s\<lparr>awaiting := False\<rparr>) else s)"
| "step (GuildCreate guild) s =
    (if Handler \<in> set (listeners s) then handler guild s else s)"

fun run :: "stimulus list \<Rightarrow> invite_state \<Rightarrow> invite_state" where
  "run [] s = s"
| "run (x # xs) s = run xs (step x s)"

text \<open>
  \<open>acceptInvite(code)\<close> up to the point where it returns the promise: the argument is
  normalised and the request is issued. \<open>others\<close> are the listeners already on the client.
\<close>

definition acceptInvite :: "jsval \<Rightarrow> nat list \<Rightarrow> js_error + invite_state" where
  "acceptInvite code others =
    (case property code ''id'' of
       Inl e \<Rightarrow> Inl e
     | Inr i \<Rightarrow>
         (let code = (if truthy i then i else code)
          in Inr \<lparr>promise = Pending, awaiting = True, res = JUndefined,
                  listeners = map Foreign others, timer = None, now = 0,
                  invite_calls = [PostInvite code]\<rparr>))"

section \<open>Notions used in the statements\<close>


text \<open>
  For a run of \<open>acceptInvite\<close>: the time a list of deliveries takes, whether a delivery
  settles the request, and whether it is a guild that \<open>handler\<close> accepts for the response
  \<open>r\<close>.
\<close>

fun elapsed :: "stimulus list \<Rightarrow> nat" where
  "elapsed [] = 0"
| "elapsed (Elapse d # xs) = d + elapsed xs"
| "elapsed (x # xs) = elapsed xs"

fun settles :: "stimulus \<Rightarrow> bool" where
  "settles (RequestFulfilled r) = True"
| "settles (RequestRejected e) = True"
| "settles x = False"

fun is_match :: "jsval \<Rightarrow> stimulus \<Rightarrow> bool" where
  "is_match r (GuildCreate g) = (matches g r = Inr True)"
| "is_match r x = False"

text \<open>
  The state in which \<open>acceptInvite\<close> returns the promise, having issued the request
  for \<open>code\<close>.
\<close>

definition issued :: "jsval \<Rightarrow> nat list \<Rightarrow> invite_state" where
  "issued code others =
     \<lparr>promise = Pending, awaiting = True, res = JUndefined,
      listeners = map Foreign others, timer = None, now = 0,
      invite_calls = [PostInvite code]\<rparr>"

text \<open>
  The states a run can reach, told apart by the calls made so far: the request is
  outstanding; the listener and the timeout are set; a guild matched and the timeout is
  still pending; a guild matched and the timeout has fired since; the timeout fired with
  no match; the request failed.
\<close>

definition armed_calls :: "jsval \<Rightarrow> invite_call list" where
  "armed_calls c = [PostInvite c, On, SetTimeout 120000]"

definition timed_out :: js_error where
  "timed_out = Error ''Accepting invite timed out''"

definition not_valid :: js_error where
  "not_valid = Error ''Invite code is not valid''"

definition phase_awaiting :: "jsval \<Rightarrow> listener list \<Rightarrow> invite_state \<Rightarrow> bool" where
  "phase_awaiting c F s =
     (awaiting s \<and> promise s = Pending \<and> listeners s = F \<and> timer s = None \<and>
      invite_calls s = [PostInvite c])"

definition phase_armed :: "jsval \<Rightarrow> listener list \<Rightarrow> invite_state \<Rightarrow> bool" where
  "phase_armed c F s =
     (\<not> awaiting s \<and> promise s = Pending \<and> listeners s = F @ [Handler] \<and>
      (\<exists>due. timer s = Some due \<and> now s < due \<and> due \<le> now s + 120000) \<and>
      invite_calls s = armed_calls c)"

definition phase_matched :: "jsval \<Rightarrow> listener list \<Rightarrow> invite_state \<Rightarrow> bool" where
  "phase_matched c F s =
     (\<not> awaiting s \<and> listeners s = F \<and>
      (\<exists>due. timer s = Some due \<and> now s < due \<and> due \<le> now s + 120000) \<and>
      (\<exists>g. promise s = Fulfilled g \<and>
           invite_calls s = armed_calls c @ [Resolve g, RemoveListener]))"

definition phase_matched_expired :: "jsval \<Rightarrow> listener list \<Rightarrow> invite_state \<Rightarrow> bool" where
  "phase_matched_expired c F s =
     (\<not> awaiting s \<and> listeners s = F \<and> timer s = None \<and>
      (\<exists>g. promise s = Fulfilled g \<and>
           invite_calls s =
             armed_calls c @ [Resolve g, RemoveListener, RemoveListener, Reject timed_out]))"

definition phase_timed_out :: "jsval \<Rightarrow> listener list \<Rightarrow> invite_state \<Rightarrow> bool" where
  "phase_timed_out c F s =
     (\<not> awaiting s \<and> listeners s = F \<and> timer s = None \<and> promise s = Rejected timed_out \<and>
      invite_calls s = armed_calls c @ [RemoveListener, Reject timed_out])"

definition phase_failed :: "jsval \<Rightarrow> listener list \<Rightarrow> invite_state \<Rightarrow> bool" where
  "phase_failed c F s =
     (\<not> awaiting s \<and> listeners s = F \<and> timer s = None \<and> promise s = Rejected not_valid \<and>
      invite_calls s = [PostInvite c, Reject not_valid])"

definition phase_inv :: "jsval \<Rightarrow> listener list \<Rightarrow> invite_state \<Rightarrow> bool" where
  "phase_inv c F s =
     (phase_awaiting c F s \<or> phase_armed c F s \<or> phase_matched c F s \<or>
      phase_matched_expired c F s \<or> phase_timed_out c F s \<or> phase_failed c F s)"

section \<open>Concrete inputs\<close>

definition no_patch :: "unit \<Rightarrow> obj \<Rightarrow> unit" where
  "no_patch b data = b"

definition fresh_user :: "(unit, unit) client_user" where
  "fresh_user =
    \<lparr>base = (), typing = (\<lambda>k. None), settings = None, verified = JUndefined,
     mfaEnabled = JUndefined, email = JUndefined, premium = JUndefined\<rparr>"

definition some_user :: "(unit, unit) client_user" where
  "some_user =
    \<lparr>base = (), typing = (\<lambda>k. None), settings = None, verified = JBool True,
     mfaEnabled = JBool True, email = JStr ''a@b.c'', premium = JBool False\<rparr>"

definition empty_payload :: obj where
  "empty_payload = map_of []"

definition null_payload :: obj where
  "null_payload =
    map_of [(''verified'', JNull), (''mfa_enabled'', JNull), (''email'', JNull), (''premium'', JNull)]"

definition flags_payload :: obj where
  "flags_payload = map_of [(''verified'', JBool False), (''mfa_enabled'', JBool True)]"

definition odd_flags_payload :: obj where
  "odd_flags_payload = map_of [(''verified'', JStr ''yes''), (''mfa_enabled'', JStr ''yes'')]"

definition token_payload :: obj where
  "token_payload = map_of [(''token'', JStr ''new'')]"

definition empty_token_payload :: obj where
  "empty_token_payload = map_of [(''token'', JStr '''')]"

definition null_token_payload :: obj where
  "null_token_payload = map_of [(''token'', JNull)]"











definition no_client :: "(unit, unit, unit) client" where
  "no_client = \<lparr>token = JStr ''old'', user = None, users_cache = (\<lambda>k. None), calls = [], emitted = []\<rparr>"

definition no_update ::
  "jsval \<Rightarrow> (unit, unit) client_user \<times> jsval \<Rightarrow>
     (unit, unit) client_user option \<times> (unit, unit) client_user \<times> jsval" where
  "no_update newData st = (None, st)"

definition invite_res :: jsval where
  "invite_res = JObj (map_of [(''id'', JStr ''77'')])"

definition guild77 :: jsval where
  "guild77 = JObj (map_of [(''id'', JStr ''77''), (''name'', JStr ''seven'')])"

definition guild78 :: jsval where
  "guild78 = JObj (map_of [(''id'', JStr ''78'')])"

definition invite_object :: obj where
  "invite_object = map_of [(''id'', JStr ''abc'')]"

definition nested_object :: obj where
  "nested_object = map_of [(''id'', JObj (map_of [(''id'', JStr ''abc'')]))]"

section \<open>The patch, field by field\<close>

lemma typeof_undefined: "(typeof v = TUndefined) = (v = JUndefined)"
  by (cases v) simp_all

lemma patch_verified:
  "verified (fst (ClientUser_patch up data (u, t))) =
     (if has data ''verified'' then get data ''verified'' else verified u)"
  by (simp add: ClientUser_patch_def Let_def)

lemma patch_mfaEnabled:
  "mfaEnabled (fst (ClientUser_patch up data (u, t))) =
     (if has data ''mfa_enabled''
      then (if typeof (get data ''mfa_enabled'') = TBoolean then get data ''mfa_enabled'' else JNull)
      else if mfaEnabled u = JUndefined then JNull else mfaEnabled u)"
  by (simp add: ClientUser_patch_def Let_def typeof_undefined)

lemma patch_email:
  "email (fst (ClientUser_patch up data (u, t))) =
     (if has data ''email''
      then (if typeof (get data ''email'') = TString then get data ''email'' else JNull)
      else email u)"
  by (simp add: ClientUser_patch_def Let_def)

lemma patch_premium:
  "premium (fst (ClientUser_patch up data (u, t))) =
     (if has data ''premium''
      then (if typeof (get data ''premium'') = TBoolean then get data ''premium'' else JNull)
      else premium u)"
  by (simp add: ClientUser_patch_def Let_def)

lemma patch_token:
  "snd (ClientUser_patch up data (u, t)) =
     (if truthy (get data ''token'') then get data ''token'' else t)"
  by (simp add: ClientUser_patch_def Let_def)

lemma patch_base:
  "base (fst (ClientUser_patch up data (u, t))) = up (base u) data"
  by (simp add: ClientUser_patch_def Let_def)

lemma patch_typing:
  "typing (fst (ClientUser_patch up data (u, t))) = typing u"
  by (simp add: ClientUser_patch_def Let_def)

lemma patch_settings:
  "settings (fst (ClientUser_patch up data (u, t))) = settings u"
  by (simp add: ClientUser_patch_def Let_def)


lemma get_absent: "\<not> has data k \<Longrightarrow> get data k = JUndefined"
  by (simp add: has_def get_def)

subsection \<open>C1: absent fields and \<open>null\<close> fields\<close>

text \<open>
  Claim C1 says that every field whose key is absent from the payload keeps its value.
  \<open>mfaEnabled\<close> does not: the \<open>else if\<close> branch of \<open>_patch\<close> turns an \<open>undefined\<close>
  \<open>mfaEnabled\<close> into \<open>null\<close> when the payload has no \<open>mfa_enabled\<close>. On a user whose
  \<open>mfaEnabled\<close> was never set, the empty payload changes it.
\<close>

theorem patch_absent_mfa_counterexample:
  "\<not> has empty_payload ''mfa_enabled'' \<and>
   mfaEnabled fresh_user = JUndefined \<and>
   mfaEnabled (fst (ClientUser_patch no_patch empty_payload (fresh_user, JNull))) = JNull"
  by (simp add: patch_mfaEnabled has_def empty_payload_def fresh_user_def)

text \<open>
  Claim C1, amended. When its key is absent from the payload, \<open>verified\<close>, \<open>email\<close> and
  \<open>premium\<close> keep their prior value, and \<open>mfaEnabled\<close> keeps its prior value unless that
  value is \<open>undefined\<close>, in which case it becomes \<open>null\<close>. A field whose key is present
  with the value \<open>null\<close> becomes \<open>null\<close>.
\<close>

theorem patch_frame:
  "(\<not> has data ''verified'' \<longrightarrow>
      verified (fst (ClientUser_patch up data (u, t))) = verified u) \<and>
   (\<not> has data ''mfa_enabled'' \<longrightarrow>
      mfaEnabled (fst (ClientUser_patch up data (u, t))) =
        (if mfaEnabled u = JUndefined then JNull else mfaEnabled u)) \<and>
   (\<not> has data ''email'' \<longrightarrow>
      email (fst (ClientUser_patch up data (u, t))) = email u) \<and>
   (\<not> has data ''premium'' \<longrightarrow>
      premium (fst (ClientUser_patch up data (u, t))) = premium u) \<and>
   (data ''verified'' = Some JNull \<longrightarrow>
      verified (fst (ClientUser_patch up data (u, t))) = JNull) \<and>
   (data ''mfa_enabled'' = Some JNull \<longrightarrow>
      mfaEnabled (fst (ClientUser_patch up data (u, t))) = JNull) \<and>
   (data ''email'' = Some JNull \<longrightarrow>
      email (fst (ClientUser_patch up data (u, t))) = JNull) \<and>
   (data ''premium'' = Some JNull \<longrightarrow>
      premium (fst (ClientUser_patch up data (u, t))) = JNull)"
  by (simp add: patch_verified patch_mfaEnabled patch_email patch_premium has_def get_def)

text \<open>
  The theorem at the empty payload and at the payload that sets all four keys to
  \<open>null\<close>, on a user with all four fields set.
\<close>

theorem patch_frame_witness:
  "\<not> has empty_payload ''verified'' \<and> \<not> has empty_payload ''mfa_enabled'' \<and>
   \<not> has empty_payload ''email'' \<and> \<not> has empty_payload ''premium'' \<and>
   verified (fst (ClientUser_patch no_patch empty_payload (some_user, JNull))) = JBool True \<and>
   mfaEnabled (fst (ClientUser_patch no_patch empty_payload (some_user, JNull))) = JBool True \<and>
   email (fst (ClientUser_patch no_patch empty_payload (some_user, JNull))) = JStr ''a@b.c'' \<and>
   premium (fst (ClientUser_patch no_patch empty_payload (some_user, JNull))) = JBool False \<and>
   null_payload ''verified'' = Some JNull \<and> null_payload ''mfa_enabled'' = Some JNull \<and>
   null_payload ''email'' = Some JNull \<and> null_payload ''premium'' = Some JNull \<and>
   verified (fst (ClientUser_patch no_patch null_payload (some_user, JNull))) = JNull \<and>
   mfaEnabled (fst (ClientUser_patch no_patch null_payload (some_user, JNull))) = JNull \<and>
   email (fst (ClientUser_patch no_patch null_payload (some_user, JNull))) = JNull \<and>
   premium (fst (ClientUser_patch no_patch null_payload (some_user, JNull))) = JNull"
  using patch_frame [of empty_payload no_patch some_user JNull]
        patch_frame [of null_payload no_patch some_user JNull]
  by (simp add: has_def empty_payload_def null_payload_def some_user_def)

subsection \<open>C2: the boolean flags\<close>

text \<open>
  Claim C2 says that a non-boolean \<open>verified\<close> is coerced to \<open>null\<close>. \<open>_patch\<close> assigns
  \<open>data.verified\<close> as it is; only \<open>mfa_enabled\<close> goes through the \<open>typeof\<close> test. With
  \<open>verified: 'yes'\<close> the field becomes the string.
\<close>

theorem patch_verified_counterexample:
  "has odd_flags_payload ''verified'' \<and>
   typeof (get odd_flags_payload ''verified'') \<noteq> TBoolean \<and>
   verified (fst (ClientUser_patch no_patch odd_flags_payload (some_user, JNull))) \<noteq> JNull"
  by (simp add: patch_verified has_def get_def odd_flags_payload_def)

text \<open>
  Claim C2, amended. When \<open>mfa_enabled\<close> is present, \<open>mfaEnabled\<close> becomes the payload
  value if that is a boolean and \<open>null\<close> otherwise. When \<open>verified\<close> is present,
  \<open>verified\<close> becomes the payload value whatever its type, so a boolean is taken as it is
  and nothing is coerced.
\<close>

theorem patch_flags:
  "(has data ''mfa_enabled'' \<longrightarrow>
      mfaEnabled (fst (ClientUser_patch up data (u, t))) =
        (if typeof (get data ''mfa_enabled'') = TBoolean then get data ''mfa_enabled'' else JNull)) \<and>
   (has data ''verified'' \<longrightarrow>
      verified (fst (ClientUser_patch up data (u, t))) = get data ''verified'')"
  by (simp add: patch_verified patch_mfaEnabled)

text \<open>
  The theorem at a payload with boolean flags and at one with string flags.
\<close>

theorem patch_flags_witness:
  "has flags_payload ''mfa_enabled'' \<and> has flags_payload ''verified'' \<and>
   mfaEnabled (fst (ClientUser_patch no_patch flags_payload (fresh_user, JNull))) = JBool True \<and>
   verified (fst (ClientUser_patch no_patch flags_payload (fresh_user, JNull))) = JBool False \<and>
   has odd_flags_payload ''mfa_enabled'' \<and> has odd_flags_payload ''verified'' \<and>
   mfaEnabled (fst (ClientUser_patch no_patch odd_flags_payload (some_user, JNull))) = JNull \<and>
   verified (fst (ClientUser_patch no_patch odd_flags_payload (some_user, JNull))) = JStr ''yes''"
  using patch_flags [of flags_payload no_patch fresh_user JNull]
        patch_flags [of odd_flags_payload no_patch some_user JNull]
  by (simp add: has_def get_def flags_payload_def odd_flags_payload_def)

subsection \<open>C6: the token side effect\<close>

text \<open>
  Claim C6 says that the credential is updated exactly when the payload carries a
  \<open>token\<close> field. \<open>_patch\<close> tests \<open>if (data.token)\<close>, the value's truthiness and not the
  presence of the key: a payload that carries \<open>token: ''\<close> leaves the credential as it was.
\<close>

theorem patch_falsy_token_counterexample:
  "has empty_token_payload ''token'' \<and>
   get empty_token_payload ''token'' = JStr '''' \<and>
   snd (ClientUser_patch no_patch empty_token_payload (some_user, JStr ''old'')) = JStr ''old''"
  by (simp add: patch_token has_def get_def empty_token_payload_def)

text \<open>
  Claim C6, amended. The credential after the patch is the payload's \<open>token\<close> when that
  value is truthy and the prior credential otherwise; in particular it is unchanged when
  the field is absent. No field that \<open>ClientUser\<close> declares depends on the payload's
  \<open>token\<close> entry or on the credential: replacing either leaves \<open>verified\<close>,
  \<open>mfaEnabled\<close>, \<open>email\<close>, \<open>premium\<close>, \<open>typing\<close> and \<open>settings\<close> as they come out.
\<close>

theorem patch_token_effect:
  "snd (ClientUser_patch up data (u, t)) =
     (if truthy (get data ''token'') then get data ''token'' else t) \<and>
   (\<not> has data ''token'' \<longrightarrow> snd (ClientUser_patch up data (u, t)) = t) \<and>
   verified (fst (ClientUser_patch up (data(''token'' := x)) (u, t'))) =
     verified (fst (ClientUser_patch up data (u, t))) \<and>
   mfaEnabled (fst (ClientUser_patch up (data(''token'' := x)) (u, t'))) =
     mfaEnabled (fst (ClientUser_patch up data (u, t))) \<and>
   email (fst (ClientUser_patch up (data(''token'' := x)) (u, t'))) =
     email (fst (ClientUser_patch up data (u, t))) \<and>
   premium (fst (ClientUser_patch up (data(''token'' := x)) (u, t'))) =
     premium (fst (ClientUser_patch up data (u, t))) \<and>
   typing (fst (ClientUser_patch up (data(''token'' := x)) (u, t'))) =
     typing (fst (ClientUser_patch up data (u, t))) \<and>
   settings (fst (ClientUser_patch up (data(''token'' := x)) (u, t'))) =
     settings (fst (ClientUser_patch up data (u, t)))"
  by (simp add: patch_token patch_verified patch_mfaEnabled patch_email patch_premium
      patch_typing patch_settings has_def get_def)

text \<open>
  The theorem at a payload without a token and at one that carries a new token.
\<close>

theorem patch_token_effect_witness:
  "\<not> has flags_payload ''token'' \<and>
   snd (ClientUser_patch no_patch flags_payload (some_user, JStr ''old'')) = JStr ''old'' \<and>
   truthy (get token_payload ''token'') \<and>
   snd (ClientUser_patch no_patch token_payload (some_user, JStr ''old'')) = JStr ''new'' \<and>
   verified (fst (ClientUser_patch no_patch token_payload (some_user, JStr ''old''))) = JBool True"
  using patch_token_effect [of no_patch flags_payload some_user "JStr ''old''" None "JStr ''old''"]
        patch_token_effect [of no_patch token_payload some_user "JStr ''old''" None "JStr ''old''"]
  by (simp add: has_def get_def flags_payload_def token_payload_def patch_verified some_user_def)

subsection \<open>C8: composing two patches\<close>

text \<open>
  Claim C8 includes the token side effect in the composition law. It fails there: with
  \<open>P1 = {token: 'new'}\<close> and \<open>P2 = {token: null}\<close>, patching twice leaves the credential
  \<open>'new'\<close>, while the combined payload has \<open>token: null\<close> and leaves it \<open>'old'\<close>.
\<close>

theorem patch_compose_token_counterexample:
  "snd (ClientUser_patch no_patch null_token_payload
          (ClientUser_patch no_patch token_payload (some_user, JStr ''old''))) = JStr ''new'' \<and>
   snd (ClientUser_patch no_patch (combine token_payload null_token_payload)
          (some_user, JStr ''old'')) = JStr ''old''"
proof -
  obtain u1 t1 where s1: "ClientUser_patch no_patch token_payload (some_user, JStr ''old'') = (u1, t1)"
    by (cases "ClientUser_patch no_patch token_payload (some_user, JStr ''old'')")
  have "t1 = snd (ClientUser_patch no_patch token_payload (some_user, JStr ''old''))"
    using s1 by simp
  then have t1: "t1 = JStr ''new''"
    by (simp add: patch_token get_def token_payload_def)
  show ?thesis
    unfolding s1
    by (simp add: patch_token t1 get_def combine_def token_payload_def null_token_payload_def)
qed

text \<open>
  Claim C8, amended. Patching with \<open>P1\<close> and then \<open>P2\<close> gives the same \<open>verified\<close>,
  \<open>mfaEnabled\<close>, \<open>email\<close> and \<open>premium\<close> as patching once with \<open>combine P1 P2\<close>. The
  credential is the same too unless \<open>P2\<close> carries a falsy \<open>token\<close> while \<open>P1\<close> carries a
  truthy one. The fields of \<open>User\<close> obey the law when \<open>User._patch\<close> does.
\<close>

theorem patch_compose:
  "verified (fst (ClientUser_patch up P2 (ClientUser_patch up P1 (u, t)))) =
     verified (fst (ClientUser_patch up (combine P1 P2) (u, t))) \<and>
   mfaEnabled (fst (ClientUser_patch up P2 (ClientUser_patch up P1 (u, t)))) =
     mfaEnabled (fst (ClientUser_patch up (combine P1 P2) (u, t))) \<and>
   email (fst (ClientUser_patch up P2 (ClientUser_patch up P1 (u, t)))) =
     email (fst (ClientUser_patch up (combine P1 P2) (u, t))) \<and>
   premium (fst (ClientUser_patch up P2 (ClientUser_patch up P1 (u, t)))) =
     premium (fst (ClientUser_patch up (combine P1 P2) (u, t))) \<and>
   ((has P2 ''token'' \<longrightarrow> truthy (get P2 ''token'') \<or> \<not> truthy (get P1 ''token'')) \<longrightarrow>
     snd (ClientUser_patch up P2 (ClientUser_patch up P1 (u, t))) =
       snd (ClientUser_patch up (combine P1 P2) (u, t))) \<and>
   (up (up (base u) P1) P2 = up (base u) (combine P1 P2) \<longrightarrow>
     base (fst (ClientUser_patch up P2 (ClientUser_patch up P1 (u, t)))) =
       base (fst (ClientUser_patch up (combine P1 P2) (u, t))))"
proof -
  obtain u1 t1 where s1: "ClientUser_patch up P1 (u, t) = (u1, t1)"
    by (cases "ClientUser_patch up P1 (u, t)")
  have u1: "u1 = fst (ClientUser_patch up P1 (u, t))" and t1: "t1 = snd (ClientUser_patch up P1 (u, t))"
    using s1 by simp_all
  have v: "verified u1 = (if has P1 ''verified'' then get P1 ''verified'' else verified u)"
    unfolding u1 by (rule patch_verified)
  have m: "mfaEnabled u1 =
     (if has P1 ''mfa_enabled''
      then (if typeof (get P1 ''mfa_enabled'') = TBoolean then get P1 ''mfa_enabled'' else JNull)
      else if mfaEnabled u = JUndefined then JNull else mfaEnabled u)"
    unfolding u1 by (rule patch_mfaEnabled)
  have e: "email u1 =
     (if has P1 ''email''
      then (if typeof (get P1 ''email'') = TString then get P1 ''email'' else JNull)
      else email u)"
    unfolding u1 by (rule patch_email)
  have p: "premium u1 =
     (if has P1 ''premium''
      then (if typeof (get P1 ''premium'') = TBoolean then get P1 ''premium'' else JNull)
      else premium u)"
    unfolding u1 by (rule patch_premium)
  have k: "t1 = (if truthy (get P1 ''token'') then get P1 ''token'' else t)"
    unfolding t1 by (rule patch_token)
  have b: "base u1 = up (base u) P1"
    unfolding u1 by (rule patch_base)
  have hc: "\<And>k. has (combine P1 P2) k = (has P2 k \<or> has P1 k)"
    by (simp add: has_def combine_def split: option.splits)
  have gc: "\<And>k. get (combine P1 P2) k = (if has P2 k then get P2 k else get P1 k)"
    by (simp add: has_def get_def combine_def split: option.splits)
  have c1: "verified (fst (ClientUser_patch up P2 (u1, t1))) =
     verified (fst (ClientUser_patch up (combine P1 P2) (u, t)))"
    by (simp add: patch_verified v hc gc)
  have c2: "mfaEnabled (fst (ClientUser_patch up P2 (u1, t1))) =
     mfaEnabled (fst (ClientUser_patch up (combine P1 P2) (u, t)))"
    by (simp add: patch_mfaEnabled m hc gc)
  have c3: "email (fst (ClientUser_patch up P2 (u1, t1))) =
     email (fst (ClientUser_patch up (combine P1 P2) (u, t)))"
    by (simp add: patch_email e hc gc)
  have c4: "premium (fst (ClientUser_patch up P2 (u1, t1))) =
     premium (fst (ClientUser_patch up (combine P1 P2) (u, t)))"
    by (simp add: patch_premium p hc gc)
  have c5: "(has P2 ''token'' \<longrightarrow> truthy (get P2 ''token'') \<or> \<not> truthy (get P1 ''token'')) \<longrightarrow>
     snd (ClientUser_patch up P2 (u1, t1)) = snd (ClientUser_patch up (combine P1 P2) (u, t))"
    by (auto simp add: patch_token k hc gc get_absent)
  have c6: "up (up (base u) P1) P2 = up (base u) (combine P1 P2) \<longrightarrow>
     base (fst (ClientUser_patch up P2 (u1, t1))) =
       base (fst (ClientUser_patch up (combine P1 P2) (u, t)))"
    by (simp add: patch_base b)
  show ?thesis
    unfolding s1 using c1 c2 c3 c4 c5 c6 by blast
qed

text \<open>
  The theorem at a payload of flags followed by a payload with a token.
\<close>

theorem patch_compose_witness:
  "has token_payload ''token'' \<and> truthy (get token_payload ''token'') \<and>
   no_patch (no_patch (base some_user) flags_payload) token_payload =
     no_patch (base some_user) (combine flags_payload token_payload) \<and>
   snd (ClientUser_patch no_patch token_payload
          (ClientUser_patch no_patch flags_payload (some_user, JStr ''old''))) = JStr ''new'' \<and>
   snd (ClientUser_patch no_patch (combine flags_payload token_payload) (some_user, JStr ''old'')) =
     JStr ''new'' \<and>
   verified (fst (ClientUser_patch no_patch token_payload
          (ClientUser_patch no_patch flags_payload (some_user, JStr ''old'')))) = JBool False \<and>
   verified (fst (ClientUser_patch no_patch (combine flags_payload token_payload)
          (some_user, JStr ''old''))) = JBool False"
  using patch_compose [of no_patch token_payload flags_payload some_user "JStr ''old''"]
  by (simp add: no_patch_def patch_token patch_verified has_def get_def combine_def
      token_payload_def flags_payload_def)

section \<open>The settings-update action emits once per call\<close>

lemma handle_all_eq:
  "handle_all ps client =
     (map (\<lambda>p. (\<lambda>k. None)(''settings'' \<mapsto> p)) ps,
      client\<lparr>emitted := emitted client @ map (Pair USER_SETTINGS_UPDATE) ps\<rparr>)"
  by (induction ps arbitrary: client) (simp_all add: UserSettingsUpdate_handle_def)

text \<open>
  Claim C7. One call of the handler appends exactly one \<open>USER_SETTINGS_UPDATE\<close> emission
  carrying the payload and returns \<open>{ settings }\<close> with that payload. Handling \<open>N\<close>
  payloads in order returns the \<open>N\<close> descriptors and appends the \<open>N\<close> emissions in
  dispatch order, so two identical payloads in a row give two emissions.
\<close>

theorem settings_update_emissions:
  "UserSettingsUpdate_handle p client =
     ((\<lambda>k. None)(''settings'' \<mapsto> p),
      client\<lparr>emitted := emitted client @ [(USER_SETTINGS_UPDATE, p)]\<rparr>) \<and>
   get (fst (UserSettingsUpdate_handle p client)) ''settings'' = p \<and>
   fst (handle_all ps client) = map (\<lambda>p. (\<lambda>k. None)(''settings'' \<mapsto> p)) ps \<and>
   emitted (snd (handle_all ps client)) = emitted client @ map (Pair USER_SETTINGS_UPDATE) ps \<and>
   length (emitted (snd (handle_all ps client))) = length (emitted client) + length ps \<and>
   emitted (snd (handle_all [p, p] client)) =
     emitted client @ [(USER_SETTINGS_UPDATE, p), (USER_SETTINGS_UPDATE, p)]"
  by (simp add: handle_all_eq UserSettingsUpdate_handle_def get_def)

text \<open>
  The theorem at two identical payloads dispatched to a client that has emitted nothing.
\<close>

theorem settings_update_emissions_witness:
  "emitted (snd (handle_all [JStr ''dark'', JStr ''dark''] no_client)) =
     [(USER_SETTINGS_UPDATE, JStr ''dark''), (USER_SETTINGS_UPDATE, JStr ''dark'')] \<and>
   length (fst (handle_all [JStr ''dark'', JStr ''dark''] no_client)) = 2"
  using settings_update_emissions [of "JStr ''dark''" no_client "[JStr ''dark'', JStr ''dark'']"]
  by (simp add: handle_all_eq no_client_def)

section \<open>The READY handler\<close>







section \<open>ClientUser.edit and the token\<close>

text \<open>
  Claim C9. When the request succeeds with the object \<open>newData\<close>, the callback assigns
  \<open>newData.token\<close> to the credential before anything else, so the prior credential has no
  influence on the outcome. With a \<open>UserUpdate.handle\<close> that leaves the credential as it
  finds it, the credential afterwards is \<open>newData.token\<close>, which is \<open>undefined\<close> when
  the response has no \<open>token\<close>. The patch leaves the credential alone in that case.
\<close>

theorem edit_overwrites_token:
  assumes "snd (snd (h (JObj m) (u, get m ''token''))) = get m ''token''"
  shows "snd (snd (edit h (Inr (JObj m)) (u, t))) = get m ''token'' \<and>
         (\<not> has m ''token'' \<longrightarrow> snd (snd (edit h (Inr (JObj m)) (u, t))) = JUndefined) \<and>
         edit h (Inr (JObj m)) (u, t) = edit h (Inr (JObj m)) (u, t') \<and>
         (\<not> has m ''token'' \<longrightarrow> snd (ClientUser_patch up m (u, t)) = t)"
proof -
  obtain upd this tok where hh: "h (JObj m) (u, get m ''token'') = (upd, this, tok)"
    by (cases "h (JObj m) (u, get m ''token'')") auto
  with assms have tok: "tok = get m ''token''" by simp
  have e: "\<And>t. edit h (Inr (JObj m)) (u, t) =
      (case upd of Some v \<Rightarrow> (Inr v, this, tok) | None \<Rightarrow> (Inr this, this, tok))"
    by (simp add: edit_def hh)
  have 1: "snd (snd (edit h (Inr (JObj m)) (u, t))) = get m ''token''"
    by (simp add: e tok split: option.splits)
  have 2: "\<not> has m ''token'' \<longrightarrow> snd (snd (edit h (Inr (JObj m)) (u, t))) = JUndefined"
    using 1 by (simp add: get_absent)
  have 3: "edit h (Inr (JObj m)) (u, t) = edit h (Inr (JObj m)) (u, t')"
    by (simp add: e)
  have 4: "\<not> has m ''token'' \<longrightarrow> snd (ClientUser_patch up m (u, t)) = t"
    by (simp add: patch_token get_absent)
  from 1 2 3 4 show ?thesis by blast
qed

text \<open>
  The theorem at a response without a token, with a \<open>UserUpdate.handle\<close> that changes
  nothing.
\<close>

theorem edit_overwrites_token_witness:
  "snd (snd (no_update (JObj flags_payload) (some_user, get flags_payload ''token''))) =
     get flags_payload ''token'' \<and>
   \<not> has flags_payload ''token'' \<and>
   snd (snd (edit no_update (Inr (JObj flags_payload)) (some_user, JStr ''old''))) = JUndefined \<and>
   snd (ClientUser_patch no_patch flags_payload (some_user, JStr ''old'')) = JStr ''old''"
  using edit_overwrites_token [of no_update flags_payload some_user "JStr ''old''" "JStr ''old''" no_patch]
  by (simp add: no_update_def has_def get_def flags_payload_def)

section \<open>Runs of acceptInvite\<close>

lemma Handler_not_Foreign: "Handler \<notin> set (map Foreign others)"
  by auto

lemma step_settled: "promise s \<noteq> Pending \<Longrightarrow> promise (step x s) = promise s"
  by (cases x)
     (auto simp: Let_def timeout_callback_def then_callback_def catch_callback_def handler_def
        resolve_def reject_def removeListener_def on_def setTimeout_def
        split: option.splits sum.splits bool.splits)

lemma run_settled: "promise s \<noteq> Pending \<Longrightarrow> promise (run xs s) = promise s"
  by (induction xs arbitrary: s) (simp_all add: step_settled)

lemma run_append: "run (xs @ ys) s = run ys (run xs s)"
  by (induction xs arbitrary: s) simp_all

lemma run_early:
  "list_all (\<lambda>x. \<not> settles x) early \<Longrightarrow> timer s = None \<Longrightarrow> Handler \<notin> set (listeners s) \<Longrightarrow>
   run early s = s\<lparr>now := now s + elapsed early\<rparr>"
proof (induction early arbitrary: s)
  case Nil
  then show ?case by simp
next
  case (Cons x xs)
  then show ?case by (cases x) (simp_all add: Let_def)
qed

lemma handler_cases:
  "handler g s = (if matches g (res s) = Inr True then removeListener (resolve g s) else s)"
  by (simp add: handler_def split: sum.splits bool.splits)

lemma run_armed:
  "\<not> awaiting s \<Longrightarrow> timer s = Some due \<Longrightarrow> Handler \<in> set (listeners s) \<Longrightarrow>
   list_all (\<lambda>x. \<not> is_match (res s) x) pre \<Longrightarrow> now s + elapsed pre < due \<Longrightarrow>
   run pre s = s\<lparr>now := now s + elapsed pre\<rparr>"
proof (induction pre arbitrary: s)
  case Nil
  then show ?case by simp
next
  case (Cons x xs)
  show ?case
  proof (cases x)
    case (Elapse d)
    let ?s = "s\<lparr>now := now s + d\<rparr>"
    have st: "step x s = ?s" using Cons.prems Elapse by (simp add: Let_def)
    have "run xs ?s = ?s\<lparr>now := now ?s + elapsed xs\<rparr>"
      using Cons.prems Elapse by (intro Cons.IH) simp_all
    then show ?thesis using Elapse st by (simp add: add.assoc)
  next
    case (RequestFulfilled r)
    then show ?thesis using Cons by simp
  next
    case (RequestRejected e)
    then show ?thesis using Cons by simp
  next
    case (GuildCreate g)
    have "step x s = s"
      using Cons.prems GuildCreate
      by (auto simp: handler_def split: sum.splits bool.splits)
    then show ?thesis using Cons GuildCreate by simp
  qed
qed

lemma run_timeout:
  "\<not> awaiting s \<Longrightarrow> timer s = Some due \<Longrightarrow> Handler \<in> set (listeners s) \<Longrightarrow>
   promise s = Pending \<Longrightarrow> now s < due \<Longrightarrow>
   list_all (\<lambda>x. \<not> is_match (res s) x) rest \<Longrightarrow> due \<le> now s + elapsed rest \<Longrightarrow>
   promise (run rest s) = Rejected (Error ''Accepting invite timed out'')"
proof (induction rest arbitrary: s)
  case Nil
  then show ?case by simp
next
  case (Cons x xs)
  show ?case
  proof (cases x)
    case (Elapse d)
    show ?thesis
    proof (cases "due \<le> now s + d")
      case True
      have "promise (step x s) = Rejected (Error ''Accepting invite timed out'')"
        using Cons.prems Elapse True
        by (simp add: Let_def timeout_callback_def reject_def removeListener_def)
      then show ?thesis by (simp add: run_settled)
    next
      case False
      let ?s = "s\<lparr>now := now s + d\<rparr>"
      have st: "step x s = ?s" using Cons.prems Elapse False by (simp add: Let_def)
      have "promise (run xs ?s) = Rejected (Error ''Accepting invite timed out'')"
        using Cons.prems Elapse False by (intro Cons.IH) simp_all
      then show ?thesis using st by simp
    qed
  next
    case (RequestFulfilled r)
    then show ?thesis using Cons by simp
  next
    case (RequestRejected e)
    then show ?thesis using Cons by simp
  next
    case (GuildCreate g)
    have "step x s = s"
      using Cons.prems GuildCreate
      by (auto simp: handler_def split: sum.splits bool.splits)
    then show ?thesis using Cons GuildCreate by simp
  qed
qed

lemmas phase_defs = phase_awaiting_def phase_armed_def phase_matched_def
  phase_matched_expired_def phase_timed_out_def phase_failed_def

lemmas callback_defs = timeout_callback_def then_callback_def catch_callback_def handler_def
  resolve_def reject_def removeListener_def on_def setTimeout_def

lemma step_awaiting:
  "Handler \<notin> set F \<Longrightarrow> phase_awaiting c F s \<Longrightarrow> phase_inv c F (step x s)"
  by (cases x)
     (auto simp: phase_inv_def phase_defs callback_defs armed_calls_def not_valid_def Let_def)

lemma step_armed:
  assumes F: "Handler \<notin> set F" and A: "phase_armed c F s"
  shows "phase_inv c F (step x s)"
proof -
  from A obtain due where a: "\<not> awaiting s" "promise s = Pending"
      "listeners s = F @ [Handler]" "timer s = Some due" "now s < due"
      "due \<le> now s + 120000" "invite_calls s = armed_calls c"
    unfolding phase_armed_def by blast
  show ?thesis
  proof (cases x)
    case (Elapse d)
    show ?thesis
    proof (cases "due \<le> now s + d")
      case True
      have "phase_timed_out c F (step x s)"
        unfolding phase_timed_out_def using a True Elapse
        by (simp add: Let_def timeout_callback_def reject_def removeListener_def timed_out_def)
      then show ?thesis by (simp add: phase_inv_def)
    next
      case False
      have "phase_armed c F (step x s)"
        unfolding phase_armed_def using a False Elapse by (simp add: Let_def)
      then show ?thesis by (simp add: phase_inv_def)
    qed
  next
    case (RequestFulfilled r)
    then have "step x s = s" using a by simp
    then show ?thesis using A by (simp add: phase_inv_def)
  next
    case (RequestRejected e)
    then have "step x s = s" using a by simp
    then show ?thesis using A by (simp add: phase_inv_def)
  next
    case (GuildCreate g)
    show ?thesis
    proof (cases "matches g (res s) = Inr True")
      case True
      have "step x s = removeListener (resolve g s)"
        using a True GuildCreate by (simp add: handler_cases)
      then have "phase_matched c F (step x s)"
        unfolding phase_matched_def using a
        by (simp add: removeListener_def resolve_def)
      then show ?thesis by (simp add: phase_inv_def)
    next
      case False
      have "step x s = s"
        using a False GuildCreate by (simp add: handler_cases)
      then show ?thesis using A by (simp add: phase_inv_def)
    qed
  qed
qed

lemma step_matched:
  assumes F: "Handler \<notin> set F" and A: "phase_matched c F s"
  shows "phase_inv c F (step x s)"
proof -
  from A obtain due g where a: "\<not> awaiting s" "promise s = Fulfilled g"
      "listeners s = F" "timer s = Some due" "now s < due"
      "due \<le> now s + 120000" "invite_calls s = armed_calls c @ [Resolve g, RemoveListener]"
    unfolding phase_matched_def by blast
  show ?thesis
  proof (cases x)
    case (Elapse d)
    show ?thesis
    proof (cases "due \<le> now s + d")
      case True
      have "phase_matched_expired c F (step x s)"
        unfolding phase_matched_expired_def using a True Elapse F
        by (simp add: Let_def timeout_callback_def reject_def removeListener_def remove1_idem
            timed_out_def)
      then show ?thesis by (simp add: phase_inv_def)
    next
      case False
      have "phase_matched c F (step x s)"
        unfolding phase_matched_def using a False Elapse by (simp add: Let_def)
      then show ?thesis by (simp add: phase_inv_def)
    qed
  next
    case (RequestFulfilled r)
    then have "step x s = s" using a by simp
    then show ?thesis using A by (simp add: phase_inv_def)
  next
    case (RequestRejected e)
    then have "step x s = s" using a by simp
    then show ?thesis using A by (simp add: phase_inv_def)
  next
    case (GuildCreate g')
    then have "step x s = s" using a F by simp
    then show ?thesis using A by (simp add: phase_inv_def)
  qed
qed

lemma step_matched_expired:
  "Handler \<notin> set F \<Longrightarrow> phase_matched_expired c F s \<Longrightarrow> phase_inv c F (step x s)"
  by (cases x)
     (auto simp: phase_inv_def phase_defs Let_def)

lemma step_timed_out:
  "Handler \<notin> set F \<Longrightarrow> phase_timed_out c F s \<Longrightarrow> phase_inv c F (step x s)"
  by (cases x)
     (auto simp: phase_inv_def phase_defs Let_def)

lemma step_failed:
  "Handler \<notin> set F \<Longrightarrow> phase_failed c F s \<Longrightarrow> phase_inv c F (step x s)"
  by (cases x)
     (auto simp: phase_inv_def phase_defs Let_def)

lemma step_inv:
  assumes F: "Handler \<notin> set F" and inv: "phase_inv c F s"
  shows "phase_inv c F (step x s)"
  using inv unfolding phase_inv_def [of c F s]
  by (elim disjE)
     (erule step_awaiting [OF F] step_armed [OF F] step_matched [OF F]
        step_matched_expired [OF F] step_timed_out [OF F] step_failed [OF F])+

lemma run_inv:
  "Handler \<notin> set F \<Longrightarrow> phase_inv c F s \<Longrightarrow> phase_inv c F (run xs s)"
  by (induction xs arbitrary: s) (simp_all add: step_inv)

lemma acceptInvite_issued:
  "acceptInvite code others = Inr s0 \<Longrightarrow>
   \<exists>c. s0 = issued c others \<and> property code ''id'' \<noteq> Inl TypeError"
  by (auto simp: acceptInvite_def issued_def Let_def split: sum.splits)

lemma acceptInvite_string: "acceptInvite (JStr code) others = Inr (issued (JStr code) others)"
  by (simp add: acceptInvite_def issued_def)

lemma issued_inv: "phase_inv c (map Foreign others) (issued c others)"
  by (simp add: phase_inv_def phase_awaiting_def issued_def)

lemma issued_early:
  assumes "list_all (\<lambda>x. \<not> settles x) early"
  shows "run early (issued c others) = (issued c others)\<lparr>now := elapsed early\<rparr>"
proof -
  have "run early (issued c others) =
      (issued c others)\<lparr>now := now (issued c others) + elapsed early\<rparr>"
    using assms by (rule run_early) (auto simp: issued_def)
  then show ?thesis by (simp add: issued_def)
qed

lemma issued_armed:
  assumes "list_all (\<lambda>x. \<not> settles x) early"
  shows "run (early @ [RequestFulfilled r]) (issued c others) =
     (issued c others)\<lparr>now := elapsed early, awaiting := False, res := r,
        listeners := map Foreign others @ [Handler], timer := Some (elapsed early + 120000),
        invite_calls := armed_calls c\<rparr>"
proof -
  have "run (early @ [RequestFulfilled r]) (issued c others) =
      step (RequestFulfilled r) ((issued c others)\<lparr>now := elapsed early\<rparr>)"
    by (simp only: run_append issued_early [OF assms] run.simps)
  then show ?thesis
    by (simp add: issued_def then_callback_def on_def setTimeout_def armed_calls_def)
qed

lemma count_armed [simp]:
  "count_list (armed_calls c) On = 1" "count_list (armed_calls c) RemoveListener = 0"
  "count_list (armed_calls c) (Reject e) = 0"
  by (simp_all add: armed_calls_def)

lemma inv_no_leak:
  "phase_inv c F s \<Longrightarrow> promise s \<noteq> Pending \<Longrightarrow> listeners s = F"
  unfolding phase_inv_def phase_defs by (elim disjE) simp_all

lemma inv_timed_out:
  "phase_inv c F s \<Longrightarrow> promise s = Rejected timed_out \<Longrightarrow>
   count_list (invite_calls s) On = 1 \<and> count_list (invite_calls s) RemoveListener = 1 \<and>
   timer s = None"
  unfolding phase_inv_def phase_defs
  by (elim disjE) (simp_all add: timed_out_def not_valid_def)

lemma inv_failed:
  "phase_inv c F s \<Longrightarrow> promise s = Rejected not_valid \<Longrightarrow>
   count_list (invite_calls s) On = 0 \<and> count_list (invite_calls s) RemoveListener = 0 \<and>
   timer s = None"
  unfolding phase_inv_def phase_defs
  by (elim disjE) (simp_all add: timed_out_def not_valid_def)

lemma inv_fulfilled:
  "phase_inv c F s \<Longrightarrow> promise s = Fulfilled g \<Longrightarrow>
   count_list (invite_calls s) On = 1 \<and>
   (if timer s = None
    then count_list (invite_calls s) RemoveListener = 2 \<and>
         count_list (invite_calls s) (Reject timed_out) = 1
    else count_list (invite_calls s) RemoveListener = 1 \<and>
         count_list (invite_calls s) (Reject timed_out) = 0)"
  unfolding phase_inv_def phase_defs
  by (elim disjE exE conjE) simp_all

lemma inv_due:
  "phase_inv c F s \<Longrightarrow> timer s = Some due \<Longrightarrow> due \<le> now s + 120000"
  unfolding phase_inv_def phase_defs
  by (elim disjE exE conjE) simp_all

lemma pending_timer_fires:
  assumes "phase_inv c F s" and "timer s \<noteq> None" and "120000 \<le> d"
  shows "step (Elapse d) s = timeout_callback (s\<lparr>now := now s + d, timer := None\<rparr>)"
proof -
  obtain due where due: "timer s = Some due" using assms(2) by auto
  have "due \<le> now s + 120000" using assms(1) due by (rule inv_due)
  with assms(3) have "due \<le> now s + d" by simp
  then show ?thesis by (simp add: Let_def due)
qed

lemma eval_matches [simp]:
  "matches guild77 invite_res = Inr True" "matches guild78 invite_res = Inr False"
  by (simp_all add: matches_def guild77_def guild78_def invite_res_def get_def)

subsection \<open>C3: the three outcomes\<close>

text \<open>
  Claim C3 says that a failed request rejects the promise with that failure. The
  \<open>catch\<close> callback ignores its argument and rejects with a fixed error: a request that
  fails with \<open>'socket hang up'\<close> rejects the promise with \<open>'Invite code is not valid'\<close>.
\<close>

theorem acceptInvite_failure_counterexample:
  "acceptInvite (JStr ''abc'') [] = Inr (issued (JStr ''abc'') []) \<and>
   promise (run [RequestRejected (Error ''socket hang up'')] (issued (JStr ''abc'') [])) =
     Rejected (Error ''Invite code is not valid'') \<and>
   promise (run [RequestRejected (Error ''socket hang up'')] (issued (JStr ''abc'') [])) \<noteq>
     Rejected (Error ''socket hang up'')"
  by (simp add: acceptInvite_string issued_def catch_callback_def reject_def)

text \<open>
  Claim C3, amended. Let the request settle after deliveries that contain no settlement.
  If it is fulfilled with \<open>r\<close>, and a guild that matches \<open>r\<close> is emitted after that, less
  than 120000 ms after the response and with no matching guild before it, the promise is
  fulfilled with that guild and stays so. If it is fulfilled with \<open>r\<close> and 120000 ms pass
  after the response with no matching guild, the promise is rejected with
  \<open>'Accepting invite timed out'\<close>. If it is rejected, with whatever failure, the promise is
  rejected with the fixed error \<open>'Invite code is not valid'\<close>, which differs from the
  timeout error, and stays so whatever is delivered later.
\<close>

theorem acceptInvite_outcomes:
  assumes "acceptInvite code others = Inr s0"
      and "list_all (\<lambda>x. \<not> settles x) early"
  shows
   "(list_all (\<lambda>x. \<not> is_match r x) pre \<and> elapsed pre < 120000 \<and> matches g r = Inr True \<longrightarrow>
       promise (run (early @ RequestFulfilled r # pre @ GuildCreate g # post) s0) = Fulfilled g) \<and>
    (list_all (\<lambda>x. \<not> is_match r x) rest \<and> 120000 \<le> elapsed rest \<longrightarrow>
       promise (run (early @ RequestFulfilled r # rest) s0) =
         Rejected (Error ''Accepting invite timed out'')) \<and>
    promise (run (early @ RequestRejected e # post) s0) =
      Rejected (Error ''Invite code is not valid'')"
proof -
  obtain c where s0: "s0 = issued c others"
    using acceptInvite_issued [OF assms(1)] by blast
  define a where "a = run (early @ [RequestFulfilled r]) s0"
  have armed: "a = (issued c others)\<lparr>now := elapsed early, awaiting := False, res := r,
        listeners := map Foreign others @ [Handler], timer := Some (elapsed early + 120000),
        invite_calls := armed_calls c\<rparr>"
    unfolding s0 a_def using assms(2) by (rule issued_armed)
  have split1: "\<And>ys. run (early @ RequestFulfilled r # ys) s0 = run ys a"
    by (simp add: a_def run_append)
  have ca: "list_all (\<lambda>x. \<not> is_match r x) pre \<and> elapsed pre < 120000 \<and> matches g r = Inr True \<longrightarrow>
       promise (run (early @ RequestFulfilled r # pre @ GuildCreate g # post) s0) = Fulfilled g"
  proof (intro impI, elim conjE)
    assume q: "list_all (\<lambda>x. \<not> is_match r x) pre" and t: "elapsed pre < 120000"
       and m: "matches g r = Inr True"
    have "run pre a = a\<lparr>now := now a + elapsed pre\<rparr>"
      by (rule run_armed [where due = "elapsed early + 120000"])
         (simp_all add: armed issued_def q t)
    then have "promise (step (GuildCreate g) (run pre a)) = Fulfilled g"
      by (simp add: armed issued_def handler_cases m removeListener_def resolve_def)
    then have "promise (run post (step (GuildCreate g) (run pre a))) = Fulfilled g"
      by (simp add: run_settled)
    moreover have "run (early @ RequestFulfilled r # pre @ GuildCreate g # post) s0 =
        run post (step (GuildCreate g) (run pre a))"
    proof -
      have "run (early @ RequestFulfilled r # pre @ GuildCreate g # post) s0 =
          run (pre @ GuildCreate g # post) a"
        by (rule split1)
      also have "\<dots> = run post (step (GuildCreate g) (run pre a))"
        by (simp only: run_append run.simps)
      finally show ?thesis .
    qed
    ultimately show "promise (run (early @ RequestFulfilled r # pre @ GuildCreate g # post) s0) = Fulfilled g"
      by (simp only:)
  qed
  have cb: "list_all (\<lambda>x. \<not> is_match r x) rest \<and> 120000 \<le> elapsed rest \<longrightarrow>
       promise (run (early @ RequestFulfilled r # rest) s0) =
         Rejected (Error ''Accepting invite timed out'')"
  proof (intro impI, elim conjE)
    assume q: "list_all (\<lambda>x. \<not> is_match r x) rest" and t: "120000 \<le> elapsed rest"
    have "promise (run rest a) = Rejected (Error ''Accepting invite timed out'')"
      by (rule run_timeout [where due = "elapsed early + 120000"])
         (simp_all add: armed issued_def q t)
    then show "promise (run (early @ RequestFulfilled r # rest) s0) =
         Rejected (Error ''Accepting invite timed out'')"
      by (simp only: split1)
  qed
  have "run early s0 = (issued c others)\<lparr>now := elapsed early\<rparr>"
    unfolding s0 using assms(2) by (rule issued_early)
  then have "promise (step (RequestRejected e) (run early s0)) = Rejected (Error ''Invite code is not valid'')"
    by (simp add: s0 issued_def catch_callback_def reject_def)
  then have "promise (run post (step (RequestRejected e) (run early s0))) =
      Rejected (Error ''Invite code is not valid'')"
    by (simp add: run_settled)
  then have cc: "promise (run (early @ RequestRejected e # post) s0) =
      Rejected (Error ''Invite code is not valid'')"
    by (simp add: run_append)
  show ?thesis
    by (rule conjI [OF ca conjI [OF cb cc]])
qed

text \<open>
  The theorem at three runs: a match 10 ms after the response, a timeout, and a failed
  request.
\<close>

theorem acceptInvite_outcomes_witness:
  "acceptInvite (JStr ''abc'') [3] = Inr (issued (JStr ''abc'') [3]) \<and>
   list_all (\<lambda>x. \<not> settles x) [Elapse 5, GuildCreate guild77] \<and>
   list_all (\<lambda>x. \<not> is_match invite_res x) [Elapse 10, GuildCreate guild78] \<and>
   elapsed [Elapse 10, GuildCreate guild78] < 120000 \<and>
   matches guild77 invite_res = Inr True \<and>
   promise (run ([Elapse 5, GuildCreate guild77] @ RequestFulfilled invite_res #
                 [Elapse 10, GuildCreate guild78] @ GuildCreate guild77 # [Elapse 120000])
              (issued (JStr ''abc'') [3])) = Fulfilled guild77 \<and>
   list_all (\<lambda>x. \<not> is_match invite_res x) [Elapse 60000, GuildCreate guild78, Elapse 60000] \<and>
   120000 \<le> elapsed [Elapse 60000, GuildCreate guild78, Elapse 60000] \<and>
   promise (run ([Elapse 5, GuildCreate guild77] @ RequestFulfilled invite_res #
                 [Elapse 60000, GuildCreate guild78, Elapse 60000])
              (issued (JStr ''abc'') [3])) = Rejected (Error ''Accepting invite timed out'') \<and>
   promise (run ([Elapse 5, GuildCreate guild77] @ RequestRejected (Error ''socket hang up'') #
                 [Elapse 120000])
              (issued (JStr ''abc'') [3])) = Rejected (Error ''Invite code is not valid'')"
  using acceptInvite_outcomes [of "JStr ''abc''" "[3]" "issued (JStr ''abc'') [3]"
          "[Elapse 5, GuildCreate guild77]" invite_res "[Elapse 10, GuildCreate guild78]" guild77
          "[Elapse 120000]" "[Elapse 60000, GuildCreate guild78, Elapse 60000]"
          "Error ''socket hang up''"]
  by (simp add: acceptInvite_string)

subsection \<open>C4: the subscription and the timer\<close>

text \<open>
  Claim C4 says that a match cancels the pending timer and that the listener is never
  removed twice. Nothing in \<open>acceptInvite\<close> clears the timeout: after a match at 10 ms the
  timer is still pending, and when it fires it calls \<open>removeListener\<close> a second time and
  \<open>reject\<close> on the settled promise.
\<close>

theorem acceptInvite_timer_counterexample:
  "acceptInvite (JStr ''abc'') [] = Inr (issued (JStr ''abc'') []) \<and>
   promise (run [RequestFulfilled invite_res, Elapse 10, GuildCreate guild77]
      (issued (JStr ''abc'') [])) = Fulfilled guild77 \<and>
   timer (run [RequestFulfilled invite_res, Elapse 10, GuildCreate guild77]
      (issued (JStr ''abc'') [])) = Some 120000 \<and>
   invite_calls (run [RequestFulfilled invite_res, Elapse 10, GuildCreate guild77, Elapse 119990]
      (issued (JStr ''abc'') [])) =
     [PostInvite (JStr ''abc''), On, SetTimeout 120000, Resolve guild77, RemoveListener,
      RemoveListener, Reject (Error ''Accepting invite timed out'')]"
  by (simp add: acceptInvite_string issued_def then_callback_def on_def setTimeout_def
      handler_cases removeListener_def resolve_def Let_def timeout_callback_def reject_def)

text \<open>
  Claim C4, amended. In every state a run reaches: once the promise is settled the
  listener is no longer registered. After a timeout \<open>on\<close> and \<open>removeListener\<close> were
  each called once. After a failed request neither was called: there was no subscription.
  After a match \<open>on\<close> was called once and \<open>removeListener\<close> once, and the timer is not
  cancelled: while it is pending it fires as soon as 120000 ms pass, calling
  \<open>removeListener\<close> and \<open>reject\<close> once more, which leaves \<open>removeListener\<close> called
  twice and changes neither the settled promise nor the listeners.
\<close>

theorem acceptInvite_subscription:
  assumes "acceptInvite code others = Inr s0"
  shows
   "(promise (run xs s0) \<noteq> Pending \<longrightarrow> listeners (run xs s0) = map Foreign others) \<and>
    (promise (run xs s0) = Rejected (Error ''Accepting invite timed out'') \<longrightarrow>
       count_list (invite_calls (run xs s0)) On = 1 \<and>
       count_list (invite_calls (run xs s0)) RemoveListener = 1 \<and>
       timer (run xs s0) = None) \<and>
    (promise (run xs s0) = Rejected (Error ''Invite code is not valid'') \<longrightarrow>
       count_list (invite_calls (run xs s0)) On = 0 \<and>
       count_list (invite_calls (run xs s0)) RemoveListener = 0 \<and>
       timer (run xs s0) = None) \<and>
    (\<forall>g. promise (run xs s0) = Fulfilled g \<longrightarrow>
       count_list (invite_calls (run xs s0)) On = 1 \<and>
       (if timer (run xs s0) = None
        then count_list (invite_calls (run xs s0)) RemoveListener = 2 \<and>
             count_list (invite_calls (run xs s0)) (Reject (Error ''Accepting invite timed out'')) = 1
        else count_list (invite_calls (run xs s0)) RemoveListener = 1 \<and>
             count_list (invite_calls (run xs s0)) (Reject (Error ''Accepting invite timed out'')) = 0)) \<and>
    (timer (run xs s0) \<noteq> None \<and> 120000 \<le> d \<longrightarrow>
       timer (step (Elapse d) (run xs s0)) = None \<and>
       promise (step (Elapse d) (run xs s0)) =
         (if promise (run xs s0) = Pending then Rejected (Error ''Accepting invite timed out'')
          else promise (run xs s0)) \<and>
       invite_calls (step (Elapse d) (run xs s0)) =
         invite_calls (run xs s0) @ [RemoveListener, Reject (Error ''Accepting invite timed out'')])"
proof -
  obtain c where s0: "s0 = issued c others"
    using acceptInvite_issued [OF assms] by blast
  have inv: "phase_inv c (map Foreign others) (run xs s0)"
    unfolding s0 by (rule run_inv [OF Handler_not_Foreign issued_inv])
  note 1 = inv_no_leak [OF inv]
  note 2 = inv_timed_out [OF inv, unfolded timed_out_def]
  note 3 = inv_failed [OF inv, unfolded not_valid_def]
  note 4 = inv_fulfilled [OF inv, unfolded timed_out_def]
  have 5: "timer (run xs s0) \<noteq> None \<and> 120000 \<le> d \<longrightarrow>
       timer (step (Elapse d) (run xs s0)) = None \<and>
       promise (step (Elapse d) (run xs s0)) =
         (if promise (run xs s0) = Pending then Rejected (Error ''Accepting invite timed out'')
          else promise (run xs s0)) \<and>
       invite_calls (step (Elapse d) (run xs s0)) =
         invite_calls (run xs s0) @ [RemoveListener, Reject (Error ''Accepting invite timed out'')]"
  proof (intro impI, elim conjE)
    assume "timer (run xs s0) \<noteq> None" and "120000 \<le> d"
    then have "step (Elapse d) (run xs s0) =
        timeout_callback ((run xs s0)\<lparr>now := now (run xs s0) + d, timer := None\<rparr>)"
      by (rule pending_timer_fires [OF inv])
    then show "timer (step (Elapse d) (run xs s0)) = None \<and>
       promise (step (Elapse d) (run xs s0)) =
         (if promise (run xs s0) = Pending then Rejected (Error ''Accepting invite timed out'')
          else promise (run xs s0)) \<and>
       invite_calls (step (Elapse d) (run xs s0)) =
         invite_calls (run xs s0) @ [RemoveListener, Reject (Error ''Accepting invite timed out'')]"
      by (simp add: timeout_callback_def reject_def removeListener_def)
  qed
  have c1: "promise (run xs s0) \<noteq> Pending \<longrightarrow> listeners (run xs s0) = map Foreign others"
    by (rule impI) (rule 1)
  have c2: "promise (run xs s0) = Rejected (Error ''Accepting invite timed out'') \<longrightarrow>
       count_list (invite_calls (run xs s0)) On = 1 \<and>
       count_list (invite_calls (run xs s0)) RemoveListener = 1 \<and>
       timer (run xs s0) = None"
    by (rule impI) (rule 2)
  have c3: "promise (run xs s0) = Rejected (Error ''Invite code is not valid'') \<longrightarrow>
       count_list (invite_calls (run xs s0)) On = 0 \<and>
       count_list (invite_calls (run xs s0)) RemoveListener = 0 \<and>
       timer (run xs s0) = None"
    by (rule impI) (rule 3)
  have c4: "\<forall>g. promise (run xs s0) = Fulfilled g \<longrightarrow>
       count_list (invite_calls (run xs s0)) On = 1 \<and>
       (if timer (run xs s0) = None
        then count_list (invite_calls (run xs s0)) RemoveListener = 2 \<and>
             count_list (invite_calls (run xs s0)) (Reject (Error ''Accepting invite timed out'')) = 1
        else count_list (invite_calls (run xs s0)) RemoveListener = 1 \<and>
             count_list (invite_calls (run xs s0)) (Reject (Error ''Accepting invite timed out'')) = 0)"
    by (rule allI, rule impI) (rule 4)
  show ?thesis
    by (rule conjI [OF c1 conjI [OF c2 conjI [OF c3 conjI [OF c4 5]]]])
qed

text \<open>
  The theorem at a run with a match 10 ms after the response.
\<close>

theorem acceptInvite_subscription_witness:
  "acceptInvite (JStr ''abc'') [3] = Inr (issued (JStr ''abc'') [3]) \<and>
   promise (run [RequestFulfilled invite_res, Elapse 10, GuildCreate guild77]
      (issued (JStr ''abc'') [3])) = Fulfilled guild77 \<and>
   listeners (run [RequestFulfilled invite_res, Elapse 10, GuildCreate guild77]
      (issued (JStr ''abc'') [3])) = [Foreign 3] \<and>
   timer (run [RequestFulfilled invite_res, Elapse 10, GuildCreate guild77]
      (issued (JStr ''abc'') [3])) \<noteq> None \<and>
   count_list (invite_calls (run [RequestFulfilled invite_res, Elapse 10, GuildCreate guild77]
      (issued (JStr ''abc'') [3]))) RemoveListener = 1 \<and>
   (120000::nat) \<le> 120000 \<and>
   invite_calls (step (Elapse 120000) (run [RequestFulfilled invite_res, Elapse 10, GuildCreate guild77]
      (issued (JStr ''abc'') [3]))) =
     invite_calls (run [RequestFulfilled invite_res, Elapse 10, GuildCreate guild77]
      (issued (JStr ''abc'') [3])) @ [RemoveListener, Reject (Error ''Accepting invite timed out'')]"
  using acceptInvite_subscription [of "JStr ''abc''" "[3]" "issued (JStr ''abc'') [3]"
          "[RequestFulfilled invite_res, Elapse 10, GuildCreate guild77]" 120000]
  by (simp add: acceptInvite_string issued_def then_callback_def on_def setTimeout_def
      handler_cases removeListener_def resolve_def Let_def)

subsection \<open>C10: the argument is normalised once\<close>

text \<open>
  Claim C10 speaks of every argument with a truthy \<open>id\<close>. The normalisation is a single
  step, so it is not idempotent on an argument whose \<open>id\<close> has a truthy \<open>id\<close> of its own:
  \<open>acceptInvite({id: {id: 'abc'}})\<close> requests the invite \<open>{id: 'abc'}\<close>, while
  \<open>acceptInvite({id: 'abc'})\<close> requests \<open>'abc'\<close>.
\<close>

theorem acceptInvite_nested_counterexample:
  "truthy (get nested_object ''id'') \<and>
   acceptInvite (JObj nested_object) [] \<noteq> acceptInvite (get nested_object ''id'') []"
  by (simp add: acceptInvite_def nested_object_def get_def)

text \<open>
  Claim C10, amended. For every argument whose \<open>id\<close> is truthy and has no truthy \<open>id\<close>
  of its own, as the code string of an invite has none, \<open>acceptInvite(arg)\<close> and
  \<open>acceptInvite(arg.id)\<close> start in the same state, having issued the request for
  \<open>arg.id\<close>; every run from there is then the same.
\<close>

theorem acceptInvite_normalises:
  assumes "truthy (get m ''id'')"
      and "property (get m ''id'') ''id'' = Inr j"
      and "\<not> truthy j"
  shows "acceptInvite (JObj m) others = acceptInvite (get m ''id'') others \<and>
         acceptInvite (JObj m) others =
           Inr \<lparr>promise = Pending, awaiting = True, res = JUndefined,
                listeners = map Foreign others, timer = None, now = 0,
                invite_calls = [PostInvite (get m ''id'')]\<rparr>"
  using assms by (simp add: acceptInvite_def)

text \<open>
  The theorem at the object \<open>{id: 'abc'}\<close>.
\<close>

theorem acceptInvite_normalises_witness:
  "truthy (get invite_object ''id'') \<and>
   property (get invite_object ''id'') ''id'' = Inr JUndefined \<and>
   \<not> truthy JUndefined \<and>
   get invite_object ''id'' = JStr ''abc'' \<and>
   acceptInvite (JObj invite_object) [] = acceptInvite (JStr ''abc'') []"
  using acceptInvite_normalises [of invite_object JUndefined "[]"]
  by (simp add: invite_object_def get_def)

end
